theory Spec2Isabelle
  imports Main
begin

section \<open>Python values: exceptions, dictionaries, strings\<close>

text \<open>
  The program is \<^verbatim>\<open>src/yang_revision_tree.py\<close>. Exceptions are values: a function that
  can raise returns \<open>error + 'a\<close>, with \<open>Inl\<close> for the exception. A \<open>KeyError\<close> carries the
  missing key, as Python's does.
\<close>

datatype error = KeyError string | IndexError | FileNotFoundError

text \<open>
  A Python \<open>dict\<close> whose order of insertion is observable is an association list in
  insertion order: \<open>d.get(k)\<close> is \<open>dict_get\<close>, \<open>d[k]\<close> is \<open>dict_item\<close> (it raises on a
  missing key), \<open>d[k] = v\<close> is \<open>dict_set\<close> (an existing key keeps its position, a new
  key goes last) and \<open>list(d.keys())\<close> is \<open>dict_keys\<close>.
\<close>

definition dict_get :: "(string \<times> 'v) list \<Rightarrow> string \<Rightarrow> 'v option" where
  "dict_get d k = map_of d k"

definition dict_item :: "(string \<times> 'v) list \<Rightarrow> string \<Rightarrow> error + 'v" where
  "dict_item d k = (case map_of d k of None \<Rightarrow> Inl (KeyError k) | Some v \<Rightarrow> Inr v)"

fun dict_set :: "(string \<times> 'v) list \<Rightarrow> string \<Rightarrow> 'v \<Rightarrow> (string \<times> 'v) list" where
  "dict_set [] k v = [(k, v)]"
| "dict_set ((k', v') # d) k v = (if k' = k then (k, v) # d else (k', v') # dict_set d k v)"

definition dict_keys :: "(string \<times> 'v) list \<Rightarrow> string list" where
  "dict_keys d = map fst d"

definition dict_values :: "(string \<times> 'v) list \<Rightarrow> 'v list" where
  "dict_values d = map snd d"

text \<open>\<open>dict(pairs)\<close>: the pairs are stored one after the other, a later pair wins.\<close>

definition dict_of :: "(string \<times> 'v) list \<Rightarrow> (string \<times> 'v) list" where
  "dict_of ps = foldl (\<lambda>d (k, v). dict_set d k v) [] ps"

text \<open>\<open>s.endswith(suf)\<close>.\<close>

definition endswith :: "string \<Rightarrow> string \<Rightarrow> bool" where
  "endswith s suf \<longleftrightarrow> length suf \<le> length s \<and> drop (length s - length suf) s = suf"


section \<open>The class Module\<close>

text \<open>
  A \<open>Module\<close> holds one attribute, the dictionary \<open>modinfo\<close> from field names to strings.
  Modules are never mutated after their construction and the program never compares
  two of them, so a module is modelled by its value.
\<close>

record Module =
  modinfo :: "(string \<times> string) list"


text \<open>\<open>Module._populate(csvrow)\<close>: \<open>self.modinfo = dict(csvrow)\<close>.\<close>

definition populate :: "(string \<times> string) list \<Rightarrow> Module" where
  "populate csvrow = \<lparr>modinfo = dict_of csvrow\<rparr>"

text \<open>
  The properties. \<open>modulename\<close> catches every exception of the lookup and returns
  \<open>"foo"\<close>; the others are plain \<open>self.modinfo[...]\<close> and raise \<open>KeyError\<close>.
  \<open>modulerevision\<close> returns the checksum when the stored revision is \<open>'undefined'\<close>.
\<close>

definition modulename :: "Module \<Rightarrow> string" where
  "modulename m = (case dict_item (modinfo m) ''modulename'' of
                     Inr v \<Rightarrow> v
                   | Inl e \<Rightarrow> ''foo'')"

definition release :: "Module \<Rightarrow> error + string" where
  "release m = dict_item (modinfo m) ''release''"

definition checksum :: "Module \<Rightarrow> error + string" where
  "checksum m = dict_item (modinfo m) ''checksum''"

definition namespace :: "Module \<Rightarrow> error + string" where
  "namespace m = dict_item (modinfo m) ''namespace''"

definition prefix :: "Module \<Rightarrow> error + string" where
  "prefix m = dict_item (modinfo m) ''prefix''"

definition kind :: "Module \<Rightarrow> error + string" where
  "kind m = dict_item (modinfo m) ''kind''"

definition filename :: "Module \<Rightarrow> error + string" where
  "filename m = dict_item (modinfo m) ''filename''"

definition modulerevision :: "Module \<Rightarrow> error + string" where
  "modulerevision m =
     (case dict_item (modinfo m) ''modulerevision'' of
        Inl e \<Rightarrow> Inl e
      | Inr r \<Rightarrow> if r = ''undefined'' then checksum m
                 else dict_item (modinfo m) ''modulerevision'')"



section \<open>The class Library\<close>

text \<open>The classification codes \<open>Library.NEW_MODULE = 0\<close> to \<open>Library.DIFF_CHECKSUM = 8\<close>.\<close>

datatype code = NEW_MODULE | NEW_REVISION | KNOWN_REVISION | ERROR_BASE
  | COLL_PREFIX | COLL_NAMESPACE | DIFF_PREFIX | DIFF_NAMESPACE | DIFF_CHECKSUM

text \<open>
  The attributes set by \<open>Library.__init__\<close>. \<open>mods\<close> maps a module name to the dictionary
  of its revisions; that inner dictionary is kept in insertion order because
  \<open>get_module\<close> reads its first key. \<open>new_results\<close> maps a file name to a module, and is
  written out in insertion order.
\<close>

record Library =
  mods :: "string \<rightharpoonup> (string \<times> Module) list"
  new_results :: "(string \<times> Module) list"
  namespaces :: "string \<rightharpoonup> Module"
  prefixes :: "string \<rightharpoonup> Module"
  logs :: "(code \<times> Module list) list"
  library_dir :: "string option"
  modulepath :: "string list"
  debug :: bool

definition Library_init :: "string option \<Rightarrow> bool \<Rightarrow> Library" where
  "Library_init dir dbg =
     \<lparr>mods = Map.empty, new_results = [], namespaces = Map.empty, prefixes = Map.empty,
      logs = [], library_dir = dir, modulepath = [], debug = dbg\<rparr>"

text \<open>
  \<open>get_module(mod_name, mod_rev)\<close>; \<open>Library.ANY_REVISION\<close> is Python's \<open>None\<close>, a given
  revision is \<open>Some r\<close>. With \<open>ANY_REVISION\<close> the first key of the revision dictionary is
  looked up; an empty dictionary makes \<open>list(...)[0]\<close> raise \<open>IndexError\<close>.
\<close>

definition get_module :: "Library \<Rightarrow> string \<Rightarrow> string option \<Rightarrow> error + Module" where
  "get_module s mod_name mod_rev =
     (case mods s mod_name of
        None \<Rightarrow> Inl (KeyError mod_name)
      | Some revs \<Rightarrow>
          (case mod_rev of
             None \<Rightarrow> (case dict_keys revs of
                         [] \<Rightarrow> Inl IndexError
                       | k # ks \<Rightarrow> dict_item revs k)
           | Some r \<Rightarrow> dict_item revs r))"

definition log_error :: "code \<Rightarrow> Module list \<Rightarrow> Library \<Rightarrow> Library" where
  "log_error issue_code ms s = s\<lparr>logs := logs s @ [(issue_code, ms)]\<rparr>"

definition log_added :: "code \<Rightarrow> Module list \<Rightarrow> Library \<Rightarrow> Library" where
  "log_added success_code ms s = s\<lparr>logs := logs s @ [(success_code, ms)]\<rparr>"

subsection \<open>add\_modules\<close>

text \<open>
  The body of the loop of \<open>add_modules\<close> is \<open>add_module\<close>; its three branches are
  \<open>new_module\<close> (the name is not a key of \<open>mods\<close>), \<open>new_revision\<close> (the name is known,
  the revision is not a key of its dictionary) and \<open>existing_revision\<close>. Each attribute
  access that can raise is a \<open>case\<close>, in the order in which Python evaluates them; the
  \<open>and\<close> of a condition is short-circuit, so \<open>mod.kind\<close> is read only when the
  namespace has an owner. Lines 217 to 222 (the registration of the namespace, the
  prefix check and the \<open>NEW_MODULE\<close> entry) are \<open>index_new_module\<close>, reached from both
  outcomes of the namespace check that do not \<open>continue\<close>. The loop variable \<open>mod\<close> is
  written \<open>m\<close>. The \<open>print\<close> calls are left out: they change no state.
  \<open>get_module_names()\<close> is the keys of \<open>mods\<close>, and \<open>get_module_revisions(name)\<close>, whose
  second definition in the class is the one in force, is \<open>self.mods.get(name)\<close>: the two
  membership tests of the loop are the \<open>case\<close> on \<open>mods s (modulename m)\<close> and the test on
  the keys of the revision dictionary.
  When an access raises, the exception leaves \<open>add_modules\<close> and the program; the
  model returns the exception and not the half-updated library.
\<close>

definition index_new_module :: "Module \<Rightarrow> string \<Rightarrow> Library \<Rightarrow> error + Library" where
  "index_new_module m ns s1 =
     (let s2 = s1\<lparr>namespaces := (namespaces s1)(ns \<mapsto> m)\<rparr> in
      case prefix m of
        Inl e \<Rightarrow> Inl e
      | Inr p \<Rightarrow>
          (case prefixes s2 p of
             None \<Rightarrow> Inr (log_added NEW_MODULE [m] (s2\<lparr>prefixes := (prefixes s2)(p \<mapsto> m)\<rparr>))
           | Some owner \<Rightarrow>
               if \<not> endswith (modulename m) ''-ann''
               then Inr (log_error COLL_PREFIX [owner, m] s2)
               else Inr (log_added NEW_MODULE [m] (s2\<lparr>prefixes := (prefixes s2)(p \<mapsto> m)\<rparr>))))"

definition new_module :: "Module \<Rightarrow> Library \<Rightarrow> error + Library" where
  "new_module m s =
     (case modulerevision m of
        Inl e \<Rightarrow> Inl e
      | Inr mrev \<Rightarrow>
          (let s1 = s\<lparr>mods := (mods s)(modulename m \<mapsto> [(mrev, m)])\<rparr> in
           case namespace m of
             Inl e \<Rightarrow> Inl e
           | Inr ns \<Rightarrow>
               (case namespaces s1 ns of
                  None \<Rightarrow> index_new_module m ns s1
                | Some owner \<Rightarrow>
                    (case kind m of
                       Inl e \<Rightarrow> Inl e
                     | Inr k \<Rightarrow>
                         if k \<noteq> ''submodule'' \<and> \<not> endswith (modulename m) ''-ann''
                         then Inr (log_error COLL_NAMESPACE [owner, m] s1)
                         else index_new_module m ns s1))))"

definition new_revision :: "Module \<Rightarrow> Library \<Rightarrow> error + Library" where
  "new_revision m s =
     (case get_module s (modulename m) None of
        Inl e \<Rightarrow> Inl e
      | Inr lib_mod \<Rightarrow>
     (case mods s (modulename m) of
        None \<Rightarrow> Inl (KeyError (modulename m))
      | Some revs \<Rightarrow>
     (case modulerevision m of
        Inl e \<Rightarrow> Inl e
      | Inr mrev \<Rightarrow>
     let s1 = s\<lparr>mods := (mods s)(modulename m \<mapsto> dict_set revs mrev m)\<rparr> in
     (case namespace lib_mod of
        Inl e \<Rightarrow> Inl e
      | Inr lib_ns \<Rightarrow>
     (case namespace m of
        Inl e \<Rightarrow> Inl e
      | Inr ns \<Rightarrow>
     if lib_ns \<noteq> ns \<and> ns \<noteq> ''undefined'' \<and> lib_ns \<noteq> ''undefined''
     then Inr (log_error DIFF_NAMESPACE [lib_mod, m] s1)
     else
     (case prefix lib_mod of
        Inl e \<Rightarrow> Inl e
      | Inr lib_p \<Rightarrow>
     (case prefix m of
        Inl e \<Rightarrow> Inl e
      | Inr p \<Rightarrow>
     if lib_p \<noteq> p then Inr (log_error DIFF_PREFIX [lib_mod, m] s1) else Inr s1)))))))"

definition existing_revision :: "Module \<Rightarrow> Library \<Rightarrow> error + Library" where
  "existing_revision m s =
     (case modulerevision m of
        Inl e \<Rightarrow> Inl e
      | Inr mrev \<Rightarrow>
     (case get_module s (modulename m) (Some mrev) of
        Inl e \<Rightarrow> Inl e
      | Inr stored \<Rightarrow>
     (case checksum stored of
        Inl e \<Rightarrow> Inl e
      | Inr stored_sum \<Rightarrow>
     (case checksum m of
        Inl e \<Rightarrow> Inl e
      | Inr mod_sum \<Rightarrow>
     if stored_sum \<noteq> mod_sum
     then Inr (log_error DIFF_CHECKSUM [stored, m] s)
     else Inr s))))"

definition add_module :: "Module \<Rightarrow> Library \<Rightarrow> error + Library" where
  "add_module m s =
     (case mods s (modulename m) of
        None \<Rightarrow> new_module m s
      | Some revs \<Rightarrow>
          (case modulerevision m of
             Inl e \<Rightarrow> Inl e
           | Inr mrev \<Rightarrow>
               if mrev \<notin> set (dict_keys revs) then new_revision m s
               else existing_revision m s))"

fun add_modules :: "Module list \<Rightarrow> Library \<Rightarrow> error + Library" where
  "add_modules [] s = Inr s"
| "add_modules (m # ms) s =
     (case add_module m s of
        Inl e \<Rightarrow> Inl e
      | Inr s' \<Rightarrow> add_modules ms s')"

text \<open>A sequence of calls of \<open>add_modules\<close>, one batch after the other.\<close>

fun merges :: "Module list list \<Rightarrow> Library \<Rightarrow> error + Library" where
  "merges [] s = Inr s"
| "merges (b # bs) s =
     (case add_modules b s of
        Inl e \<Rightarrow> Inl e
      | Inr s' \<Rightarrow> merges bs s')"

text \<open>\<open>self.namespaces.get(ns)\<close> and \<open>self.prefixes.get(p)\<close>, the owner or \<open>None\<close>.\<close>

definition namespaces_get :: "string \<Rightarrow> Library \<Rightarrow> Module option" where
  "namespaces_get ns s = namespaces s ns"

definition prefixes_get :: "string \<Rightarrow> Library \<Rightarrow> Module option" where
  "prefixes_get p s = prefixes s p"

text \<open>
  The fields that \<open>add_modules\<close> may read from a record. The extractor is required to
  deliver them; a record that lacks one makes the merge raise \<open>KeyError\<close>.
\<close>

definition has_merge_fields :: "Module \<Rightarrow> bool" where
  "has_merge_fields m \<longleftrightarrow>
     list_all (\<lambda>f. dict_get (modinfo m) f \<noteq> None)
       [''modulerevision'', ''checksum'', ''namespace'', ''prefix'', ''kind'']"

text \<open>
  The exemptions of the two collision checks, as the conditions of lines 214 and 218
  write them: the namespace check passes over a submodule and over a name that ends
  in \<open>-ann\<close>, the prefix check only over a name that ends in \<open>-ann\<close>.
\<close>

definition namespace_exempt :: "Module \<Rightarrow> bool" where
  "namespace_exempt m \<longleftrightarrow> kind m = Inr ''submodule'' \<or> endswith (modulename m) ''-ann''"

definition prefix_exempt :: "Module \<Rightarrow> bool" where
  "prefix_exempt m \<longleftrightarrow> endswith (modulename m) ''-ann''"


section \<open>Release files\<close>

text \<open>
  A release file is read and written through Python's \<open>csv\<close> module, which is not part
  of the program: the model stops at its interface, the rows (lists of field strings)
  that \<open>writerow\<close> is given and that the reader yields, and takes a file to hold the
  rows written to it. A path is the library directory and the file name in it; the
  directory is taken to exist, so that opening a file for writing succeeds. The
  lines printed are kept as values of \<open>message\<close>.
\<close>

type_synonym path = "string \<times> string"

datatype message =
    No_release_name
  | Already_exists string
  | Wrote nat path
  | Empty_scan path

record World =
  files :: "path \<rightharpoonup> string list list"
  stdout :: "message list"

definition db_prefix :: string where
  "db_prefix = ''REVINFO-''"

definition db_suffix :: string where
  "db_suffix = ''.csv''"

text \<open>\<open>if self.library_dir:\<close> is false for \<open>None\<close> and for the empty string.\<close>

definition get_output_libpath :: "Library \<Rightarrow> string \<Rightarrow> path option" where
  "get_output_libpath s release_name =
     (case library_dir s of
        None \<Rightarrow> None
      | Some dir \<Rightarrow> if dir = [] then None
                    else Some (dir, db_prefix @ release_name @ db_suffix))"

definition is_release_scanned :: "Library \<Rightarrow> World \<Rightarrow> string \<Rightarrow> bool" where
  "is_release_scanned s w release_name =
     (case get_output_libpath s release_name of
        None \<Rightarrow> False
      | Some out_libpath \<Rightarrow> files w out_libpath \<noteq> None)"



text \<open>
  \<open>csv.DictReader\<close> on the rows of a file: the first row gives the field names, empty
  rows are skipped, and every other row becomes the dictionary of the field names
  zipped with its values. (For a row longer or shorter than the header the reader adds
  values that are not strings; \<open>write_out_new_results\<close> writes no such row.)
\<close>

definition DictReader :: "string list list \<Rightarrow> (string \<times> string) list list" where
  "DictReader rows =
     (case rows of
        [] \<Rightarrow> []
      | fieldnames # rest \<Rightarrow>
          map (\<lambda>row. dict_of (zip fieldnames row)) (filter (\<lambda>row. row \<noteq> []) rest))"

text \<open>
  \<open>load_release\<close>: \<open>release_modules\<close> is its list
  \<open>[Module(row) for row in revinfo_reader]\<close>, which it hands to \<open>add_modules\<close>.
\<close>

definition release_modules :: "path \<Rightarrow> World \<Rightarrow> error + Module list" where
  "release_modules dbfile w =
     (case files w dbfile of
        None \<Rightarrow> Inl FileNotFoundError
      | Some rows \<Rightarrow> Inr (map populate (DictReader rows)))"

definition load_release :: "path \<Rightarrow> World \<Rightarrow> Library \<Rightarrow> error + Library" where
  "load_release dbfile w s =
     (case release_modules dbfile w of
        Inl e \<Rightarrow> Inl e
      | Inr ms \<Rightarrow> add_modules ms s)"


section \<open>Example records\<close>

text \<open>The records of the scenarios, used for the witnesses and the counterexamples.\<close>

definition mk_module :: "string \<Rightarrow> string \<Rightarrow> string \<Rightarrow> string \<Rightarrow> string \<Rightarrow> string \<Rightarrow> string
    \<Rightarrow> string \<Rightarrow> Module" where
  "mk_module n r rel c ns p k f =
     \<lparr>modinfo = [(''modulename'', n), (''modulerevision'', r), (''release'', rel),
        (''checksum'', c), (''namespace'', ns), (''prefix'', p), (''kind'', k),
        (''filename'', f)]\<rparr>"

definition ex_a :: Module where
  "ex_a = mk_module ''a'' ''2020-01-01'' ''r1'' ''c1'' ''urn:a'' ''a'' ''module'' ''a.yang''"

definition ex_a_changed :: Module where
  "ex_a_changed =
     mk_module ''a'' ''2020-01-01'' ''r2'' ''c2'' ''urn:a'' ''a'' ''module'' ''a.yang''"

definition ex_a_feb :: Module where
  "ex_a_feb =
     mk_module ''a'' ''2020-02-01'' ''r2'' ''c3'' ''urn:a2'' ''a'' ''module'' ''a.yang''"

definition ex_a_pfx :: Module where
  "ex_a_pfx =
     mk_module ''a'' ''2020-03-01'' ''r3'' ''c4'' ''urn:a'' ''ax'' ''module'' ''a.yang''"

definition ex_b :: Module where
  "ex_b = mk_module ''b'' ''2020-01-01'' ''r1'' ''c5'' ''urn:a'' ''b'' ''module'' ''b.yang''"

definition ex_c :: Module where
  "ex_c = mk_module ''c'' ''2020-01-01'' ''r1'' ''c6'' ''urn:c'' ''a'' ''module'' ''c.yang''"

definition ex_sub :: Module where
  "ex_sub =
     mk_module ''a-sub'' ''2020-01-01'' ''r1'' ''c7'' ''urn:a'' ''a'' ''submodule''
       ''a-sub.yang''"

definition ex_ann :: Module where
  "ex_ann =
     mk_module ''a-ann'' ''2020-01-01'' ''r1'' ''c8'' ''urn:a'' ''a'' ''module'' ''a-ann.yang''"

text \<open>
  A record as a scan builds it (checksum and release first) when the extractor prints
  no \<open>modulename\<close> line; the scan accepts any record of five fields or more.
\<close>

definition ex_noname :: Module where
  "ex_noname =
     \<lparr>modinfo = [(''checksum'', ''c9''), (''release'', ''r1''), (''namespace'', ''urn:n''),
        (''prefix'', ''n''), (''modulerevision'', ''2020-01-01''), (''kind'', ''module''),
        (''filename'', ''n.yang'')]\<rparr>"

definition lib0 :: Library where
  "lib0 = Library_init (Some ''lib'') False"

definition world0 :: World where
  "world0 = \<lparr>files = Map.empty, stdout = []\<rparr>"

text \<open>The library after \<open>add_modules\<close> of the one record \<open>ex_a\<close> into the empty library.\<close>

definition lib_a :: Library where
  "lib_a =
     \<lparr>mods = [''a'' \<mapsto> [(''2020-01-01'', ex_a)]], new_results = [],
      namespaces = [''urn:a'' \<mapsto> ex_a], prefixes = [''a'' \<mapsto> ex_a],
      logs = [(NEW_MODULE, [ex_a])], library_dir = Some ''lib'', modulepath = [],
      debug = False\<rparr>"


text \<open>
  The libraries reached from \<open>lib_a\<close> by merging \<open>ex_a_changed\<close> (same name and revision
  as \<open>ex_a\<close>, another checksum), \<open>ex_b\<close> (another name, the namespace of \<open>ex_a\<close>) and
  \<open>ex_c\<close> (another name, the prefix of \<open>ex_a\<close>); and a library whose last scan found
  \<open>ex_a\<close>.
\<close>

definition lib_a_changed :: Library where
  "lib_a_changed = lib_a\<lparr>logs := logs lib_a @ [(DIFF_CHECKSUM, [ex_a, ex_a_changed])]\<rparr>"

definition lib_a_b :: Library where
  "lib_a_b =
     lib_a\<lparr>mods := (mods lib_a)(''b'' \<mapsto> [(''2020-01-01'', ex_b)]),
           logs := logs lib_a @ [(COLL_NAMESPACE, [ex_a, ex_b])]\<rparr>"

definition lib_a_c :: Library where
  "lib_a_c =
     lib_a\<lparr>mods := (mods lib_a)(''c'' \<mapsto> [(''2020-01-01'', ex_c)]),
           namespaces := (namespaces lib_a)(''urn:c'' \<mapsto> ex_c),
           logs := logs lib_a @ [(COLL_PREFIX, [ex_a, ex_c])]\<rparr>"

definition lib_scanned :: Library where
  "lib_scanned = lib_a\<lparr>new_results := [(''a.yang'', ex_a)]\<rparr>"


section \<open>Notions used to state the properties\<close>

text \<open>
  No two revisions of a module share a key. In Python this is what a dictionary is;
  for the association lists of the model it is an invariant of the merge.
\<close>

definition unique_keys :: "Library \<Rightarrow> bool" where
  "unique_keys s \<longleftrightarrow> (\<forall>n revs. mods s n = Some revs \<longrightarrow> distinct (dict_keys revs))"

text \<open>
  The entry that a record \<open>m\<close> gets when its name and revision are stored in \<open>s\<close>:
  \<open>DIFF_CHECKSUM\<close> with the stored record and \<open>m\<close> when the checksums differ, none when
  they agree.
\<close>

definition checksum_entry :: "Library \<Rightarrow> Module \<Rightarrow> (code \<times> Module list) list" where
  "checksum_entry s m =
     (case modulerevision m of
        Inl e \<Rightarrow> []
      | Inr r \<Rightarrow>
          (case get_module s (modulename m) (Some r) of
             Inl e \<Rightarrow> []
           | Inr stored \<Rightarrow>
               if checksum stored \<noteq> checksum m then [(DIFF_CHECKSUM, [stored, m])] else []))"





section \<open>Dictionaries and accessors\<close>

lemmas accessor_defs = modulename_def modulerevision_def release_def checksum_def
  namespace_def prefix_def kind_def filename_def dict_item_def dict_get_def dict_keys_def
  dict_values_def

lemmas example_defs = ex_a_def ex_a_changed_def ex_a_feb_def ex_a_pfx_def ex_b_def ex_c_def
  ex_sub_def ex_ann_def ex_noname_def mk_module_def lib0_def lib_a_def Library_init_def
  world0_def

lemmas state_defs = lib_a_changed_def lib_a_b_def lib_a_c_def lib_scanned_def

lemmas merge_defs = add_module_def new_module_def index_new_module_def new_revision_def
  existing_revision_def get_module_def log_error_def log_added_def endswith_def
  namespaces_get_def prefixes_get_def namespace_exempt_def prefix_exempt_def
  has_merge_fields_def

lemma dict_set_new: "k \<notin> set (dict_keys d) \<Longrightarrow> dict_set d k v = d @ [(k, v)]"
  by (induction d) (auto simp: dict_keys_def)

lemma map_of_dict_set: "map_of (dict_set d k v) = (map_of d)(k \<mapsto> v)"
  by (induction d) (auto simp: fun_eq_iff)

lemma dict_keys_dict_set: "set (dict_keys (dict_set d k v)) = insert k (set (dict_keys d))"
proof -
  have "set (dict_keys (dict_set d k v)) = dom (map_of (dict_set d k v))"
    by (simp add: dict_keys_def dom_map_of_conv_image_fst)
  also have "\<dots> = insert k (dom (map_of d))"
    by (simp add: map_of_dict_set)
  also have "\<dots> = insert k (set (dict_keys d))"
    by (simp add: dict_keys_def dom_map_of_conv_image_fst)
  finally show ?thesis .
qed

lemma distinct_dict_set: "distinct (dict_keys d) \<Longrightarrow> distinct (dict_keys (dict_set d k v))"
proof (induction d)
  case Nil
  then show ?case by (simp add: dict_keys_def)
next
  case (Cons kv d)
  obtain k' v' where kv: "kv = (k', v')" by (cases kv)
  have tail: "distinct (dict_keys (dict_set d k v))"
    using Cons by (simp add: dict_keys_def)
  have "k' \<noteq> k \<Longrightarrow> k' \<notin> set (dict_keys (dict_set d k v))"
    using Cons.prems kv by (simp add: dict_keys_dict_set) (simp add: dict_keys_def)
  with tail Cons.prems kv show ?case
    by (auto simp: dict_keys_def)
qed

lemma has_merge_fields_accessors:
  assumes "has_merge_fields m"
  obtains r ns p k c where "modulerevision m = Inr r" "namespace m = Inr ns"
    "prefix m = Inr p" "kind m = Inr k" "checksum m = Inr c"
proof -
  from assms obtain r0 c ns p k where f:
    "map_of (modinfo m) ''modulerevision'' = Some r0" "map_of (modinfo m) ''checksum'' = Some c"
    "map_of (modinfo m) ''namespace'' = Some ns" "map_of (modinfo m) ''prefix'' = Some p"
    "map_of (modinfo m) ''kind'' = Some k"
    by (auto simp: has_merge_fields_def dict_get_def)
  have "modulerevision m = Inr (if r0 = ''undefined'' then c else r0)"
    using f(1,2) by (simp add: modulerevision_def checksum_def dict_item_def)
  moreover have "namespace m = Inr ns" "prefix m = Inr p" "kind m = Inr k" "checksum m = Inr c"
    using f by (simp_all add: namespace_def prefix_def kind_def checksum_def dict_item_def)
  ultimately show thesis by (rule that)
qed

lemma logs_log_error [simp]: "logs (log_error c ms s) = logs s @ [(c, ms)]"
  and mods_log_error [simp]: "mods (log_error c ms s) = mods s"
  and namespaces_log_error [simp]: "namespaces (log_error c ms s) = namespaces s"
  and prefixes_log_error [simp]: "prefixes (log_error c ms s) = prefixes s"
  by (simp_all add: log_error_def)

lemma logs_log_added [simp]: "logs (log_added c ms s) = logs s @ [(c, ms)]"
  and mods_log_added [simp]: "mods (log_added c ms s) = mods s"
  and namespaces_log_added [simp]: "namespaces (log_added c ms s) = namespaces s"
  and prefixes_log_added [simp]: "prefixes (log_added c ms s) = prefixes s"
  by (simp_all add: log_added_def)


section \<open>The three branches of add\_modules\<close>

text \<open>
  What each branch returns when the fields it reads are there, and what a successful
  step did to \<open>mods\<close> and to the two indices.
\<close>

lemma index_new_module_Inr:
  assumes "prefix m = Inr p"
  shows "index_new_module m ns s1 =
     Inr (case prefixes s1 p of
            None \<Rightarrow> log_added NEW_MODULE [m]
                      (s1\<lparr>namespaces := (namespaces s1)(ns \<mapsto> m), prefixes := (prefixes s1)(p \<mapsto> m)\<rparr>)
          | Some owner \<Rightarrow>
              if prefix_exempt m
              then log_added NEW_MODULE [m]
                      (s1\<lparr>namespaces := (namespaces s1)(ns \<mapsto> m), prefixes := (prefixes s1)(p \<mapsto> m)\<rparr>)
              else log_error COLL_PREFIX [owner, m] (s1\<lparr>namespaces := (namespaces s1)(ns \<mapsto> m)\<rparr>))"
  using assms by (simp add: index_new_module_def prefix_exempt_def split: option.splits)

lemma new_module_Inr:
  assumes "modulerevision m = Inr r" "namespace m = Inr ns" "prefix m = Inr p" "kind m = Inr k"
  shows "new_module m s =
     (case namespaces s ns of
        None \<Rightarrow> index_new_module m ns (s\<lparr>mods := (mods s)(modulename m \<mapsto> [(r, m)])\<rparr>)
      | Some owner \<Rightarrow>
          if namespace_exempt m
          then index_new_module m ns (s\<lparr>mods := (mods s)(modulename m \<mapsto> [(r, m)])\<rparr>)
          else Inr (log_error COLL_NAMESPACE [owner, m] (s\<lparr>mods := (mods s)(modulename m \<mapsto> [(r, m)])\<rparr>)))"
  using assms by (auto simp add: new_module_def namespace_exempt_def split: option.splits)

lemma new_revision_Inr:
  assumes "mods s (modulename m) = Some ((r0, lib_mod) # rest)" "modulerevision m = Inr r"
    "namespace lib_mod = Inr lns" "namespace m = Inr ns"
  shows "new_revision m s =
     (let s1 = s\<lparr>mods := (mods s)(modulename m \<mapsto> dict_set ((r0, lib_mod) # rest) r m)\<rparr> in
      if lns \<noteq> ns \<and> ns \<noteq> ''undefined'' \<and> lns \<noteq> ''undefined''
      then Inr (log_error DIFF_NAMESPACE [lib_mod, m] s1)
      else (case prefix lib_mod of Inl e \<Rightarrow> Inl e | Inr lp \<Rightarrow>
             (case prefix m of Inl e \<Rightarrow> Inl e | Inr p \<Rightarrow>
                if lp \<noteq> p then Inr (log_error DIFF_PREFIX [lib_mod, m] s1) else Inr s1)))"
  using assms
  by (simp add: new_revision_def get_module_def dict_keys_def dict_item_def Let_def)

lemma index_new_module_mods: "index_new_module m ns s1 = Inr s' \<Longrightarrow> mods s' = mods s1"
  by (auto simp: index_new_module_def Let_def split: sum.splits option.splits if_splits)

lemma new_module_elim:
  assumes "new_module m s = Inr s'"
  shows "\<exists>r. modulerevision m = Inr r \<and> mods s' = (mods s)(modulename m \<mapsto> [(r, m)])"
  using assms
  by (auto simp: new_module_def Let_def dest!: index_new_module_mods
      split: sum.splits option.splits if_splits)

lemma new_revision_elim:
  assumes "new_revision m s = Inr s'"
  shows "\<exists>r revs. modulerevision m = Inr r \<and> mods s (modulename m) = Some revs
     \<and> mods s' = (mods s)(modulename m \<mapsto> dict_set revs r m)
     \<and> namespaces s' = namespaces s \<and> prefixes s' = prefixes s"
  using assms
  by (auto simp: new_revision_def Let_def split: sum.splits option.splits if_splits)

lemma existing_revision_elim:
  assumes "existing_revision m s = Inr s'"
  shows "mods s' = mods s \<and> namespaces s' = namespaces s \<and> prefixes s' = prefixes s
     \<and> (\<exists>r x. modulerevision m = Inr r \<and> get_module s (modulename m) (Some r) = Inr x)"
  using assms
  by (auto simp: existing_revision_def split: sum.splits if_splits)

lemma get_module_Some:
  "get_module s n (Some r) = Inr x \<longleftrightarrow> (\<exists>revs. mods s n = Some revs \<and> map_of revs r = Some x)"
  by (auto simp: get_module_def dict_item_def split: option.splits)

lemma add_module_branch:
  assumes "add_module m s = Inr s'"
  shows "(mods s (modulename m) = None \<and> new_module m s = Inr s')
     \<or> (\<exists>revs r. mods s (modulename m) = Some revs \<and> modulerevision m = Inr r
          \<and> r \<notin> set (dict_keys revs) \<and> new_revision m s = Inr s')
     \<or> (\<exists>revs r. mods s (modulename m) = Some revs \<and> modulerevision m = Inr r
          \<and> r \<in> set (dict_keys revs) \<and> existing_revision m s = Inr s')"
  using assms by (auto simp: add_module_def split: option.splits sum.splits if_splits)

lemma add_module_occupied:
  assumes "add_module m s = Inr s'"
  shows "\<exists>r x. modulerevision m = Inr r \<and> get_module s' (modulename m) (Some r) = Inr x"
  using add_module_branch [OF assms]
proof (elim disjE conjE exE)
  assume "new_module m s = Inr s'"
  from new_module_elim [OF this] show ?thesis
    by (auto simp: get_module_Some)
next
  fix revs r assume "new_revision m s = Inr s'"
  from new_revision_elim [OF this] show ?thesis
    by (auto simp: get_module_Some map_of_dict_set)
next
  fix revs r assume "existing_revision m s = Inr s'"
  from existing_revision_elim [OF this] show ?thesis
    by (auto simp: get_module_Some)
qed

lemma add_module_keeps:
  assumes "add_module m s = Inr s'" and "get_module s n (Some r) = Inr x"
  shows "get_module s' n (Some r) = Inr x"
  using add_module_branch [OF assms(1)]
proof (elim disjE conjE exE)
  assume "mods s (modulename m) = None" "new_module m s = Inr s'"
  with new_module_elim [of m s s'] assms(2) show ?thesis
    by (auto simp: get_module_Some)
next
  fix revs r' assume h: "mods s (modulename m) = Some revs" "modulerevision m = Inr r'"
    "r' \<notin> set (dict_keys revs)" "new_revision m s = Inr s'"
  have "r' \<noteq> r" if "n = modulename m"
  proof -
    from that h(1) assms(2) have "map_of revs r = Some x"
      by (simp add: get_module_Some)
    then have "r \<in> set (dict_keys revs)"
      by (auto simp: dict_keys_def dest: map_of_SomeD intro: rev_image_eqI)
    with h(3) show ?thesis by blast
  qed
  with new_revision_elim [OF h(4)] h(1,2) assms(2) show ?thesis
    by (auto simp: get_module_Some map_of_dict_set)
next
  fix revs r' assume "existing_revision m s = Inr s'"
  from existing_revision_elim [OF this] assms(2) show ?thesis
    by (auto simp: get_module_Some)
qed

lemma add_modules_keeps:
  "add_modules ms s = Inr s' \<Longrightarrow> get_module s n (Some r) = Inr x
     \<Longrightarrow> get_module s' n (Some r) = Inr x"
proof (induction ms arbitrary: s)
  case Nil
  then show ?case by simp
next
  case (Cons m ms)
  from Cons.prems(1) obtain s1 where s1: "add_module m s = Inr s1" "add_modules ms s1 = Inr s'"
    by (auto split: sum.splits)
  from add_module_keeps [OF s1(1) Cons.prems(2)] Cons.IH [OF s1(2)] show ?case by blast
qed

lemma add_modules_append:
  "add_modules (xs @ ys) s =
     (case add_modules xs s of Inl e \<Rightarrow> Inl e | Inr s' \<Rightarrow> add_modules ys s')"
  by (induction xs arbitrary: s) (auto split: sum.splits)

lemma merges_concat: "merges bs s = add_modules (concat bs) s"
  by (induction bs arbitrary: s) (auto simp: add_modules_append split: sum.splits)

lemma index_new_module_elim:
  assumes "index_new_module m ns s1 = Inr s'"
  shows "namespaces s' = (namespaces s1)(ns \<mapsto> m)
     \<and> (prefixes s' = prefixes s1
        \<or> (\<exists>p. prefix m = Inr p \<and> prefixes s' = (prefixes s1)(p \<mapsto> m)
              \<and> (prefixes s1 p = None \<or> prefix_exempt m)))"
  using assms
  by (auto simp: index_new_module_def Let_def prefix_exempt_def
      split: sum.splits option.splits if_splits)

lemma new_module_index:
  assumes "new_module m s = Inr s'"
  shows "(namespaces s' = namespaces s \<and> prefixes s' = prefixes s)
     \<or> (\<exists>ns. namespace m = Inr ns \<and> namespaces s' = (namespaces s)(ns \<mapsto> m)
           \<and> (namespaces s ns = None \<or> namespace_exempt m)
           \<and> (prefixes s' = prefixes s
              \<or> (\<exists>p. prefix m = Inr p \<and> prefixes s' = (prefixes s)(p \<mapsto> m)
                    \<and> (prefixes s p = None \<or> prefix_exempt m))))"
  using assms
  by (auto simp: new_module_def Let_def namespace_exempt_def dest!: index_new_module_elim
      split: sum.splits option.splits if_splits)

lemma add_module_index:
  assumes "add_module m s = Inr s'"
  shows "(namespaces s' = namespaces s \<and> prefixes s' = prefixes s)
     \<or> (\<exists>ns. namespace m = Inr ns \<and> namespaces s' = (namespaces s)(ns \<mapsto> m)
           \<and> (namespaces s ns = None \<or> namespace_exempt m)
           \<and> (prefixes s' = prefixes s
              \<or> (\<exists>p. prefix m = Inr p \<and> prefixes s' = (prefixes s)(p \<mapsto> m)
                    \<and> (prefixes s p = None \<or> prefix_exempt m))))"
  using add_module_branch [OF assms]
proof (elim disjE conjE exE)
  assume "new_module m s = Inr s'"
  then show ?thesis by (rule new_module_index)
next
  fix revs r assume "new_revision m s = Inr s'"
  from new_revision_elim [OF this] show ?thesis by blast
next
  fix revs r assume "existing_revision m s = Inr s'"
  from existing_revision_elim [OF this] show ?thesis by blast
qed

lemma add_module_ns_owner:
  assumes "add_module m s = Inr s'" and "namespaces s ns = Some ow"
  shows "namespaces s' ns = Some ow \<or> (namespace_exempt m \<and> namespaces s' ns = Some m)"
  using add_module_index [OF assms(1)] assms(2)
  by (auto split: if_splits)


lemma add_modules_ns_owner:
  "add_modules ms s = Inr s' \<Longrightarrow> namespaces s ns = Some ow \<Longrightarrow>
     namespaces s' ns = Some ow \<or> (\<exists>m\<in>set ms. namespace_exempt m \<and> namespaces s' ns = Some m)"
proof (induction ms arbitrary: s ow)
  case Nil
  then show ?case by simp
next
  case (Cons m ms)
  from Cons.prems(1) obtain s1 where s1: "add_module m s = Inr s1" "add_modules ms s1 = Inr s'"
    by (auto split: sum.splits)
  from add_module_ns_owner [OF s1(1) Cons.prems(2)]
  show ?case
  proof
    assume "namespaces s1 ns = Some ow"
    from Cons.IH [OF s1(2) this] show ?thesis by auto
  next
    assume ex: "namespace_exempt m \<and> namespaces s1 ns = Some m"
    then have "namespaces s1 ns = Some m" ..
    from Cons.IH [OF s1(2) this] ex show ?thesis by auto
  qed
qed


lemma add_module_unique_keys:
  assumes "add_module m s = Inr s'" and "unique_keys s"
  shows "unique_keys s'"
  using add_module_branch [OF assms(1)]
proof (elim disjE conjE exE)
  assume "new_module m s = Inr s'"
  from new_module_elim [OF this] assms(2) show ?thesis
    by (auto simp: unique_keys_def dict_keys_def split: if_splits)
next
  fix revs r assume "new_revision m s = Inr s'"
  from new_revision_elim [OF this] obtain r' revs' where
    h: "mods s (modulename m) = Some revs'" "mods s' = (mods s)(modulename m \<mapsto> dict_set revs' r' m)"
    by blast
  from h(1) assms(2) have "distinct (dict_keys revs')"
    by (simp add: unique_keys_def)
  then have "distinct (dict_keys (dict_set revs' r' m))"
    by (rule distinct_dict_set)
  with h(2) assms(2) show ?thesis
    by (auto simp: unique_keys_def split: if_splits)
next
  fix revs r assume "existing_revision m s = Inr s'"
  from existing_revision_elim [OF this] assms(2) show ?thesis
    by (auto simp: unique_keys_def)
qed

lemma add_modules_unique_keys:
  "add_modules ms s = Inr s' \<Longrightarrow> unique_keys s \<Longrightarrow> unique_keys s'"
  by (induction ms arbitrary: s) (auto split: sum.splits dest: add_module_unique_keys)

lemma existing_revision_Inr:
  assumes "modulerevision m = Inr r" and "get_module s (modulename m) (Some r) = Inr stored"
    and "checksum stored = Inr c1" and "checksum m = Inr c2"
  shows "add_module m s =
     Inr (s\<lparr>logs := logs s @ (if c1 \<noteq> c2 then [(DIFF_CHECKSUM, [stored, m])] else [])\<rparr>)"
proof -
  from assms(2) obtain revs where revs: "mods s (modulename m) = Some revs"
    "map_of revs r = Some stored"
    by (auto simp: get_module_Some)
  from revs(2) have "r \<in> set (dict_keys revs)"
    by (auto simp: dict_keys_def dest: map_of_SomeD intro: rev_image_eqI)
  with revs(1) assms(1) have "add_module m s = existing_revision m s"
    by (simp add: add_module_def)
  then show ?thesis
    using assms by (simp add: existing_revision_def log_error_def)
qed

lemma new_module_total:
  assumes "has_merge_fields m"
  shows "\<exists>s'. new_module m s = Inr s'"
proof -
  from assms obtain r ns p k c where acc: "modulerevision m = Inr r" "namespace m = Inr ns"
    "prefix m = Inr p" "kind m = Inr k" "checksum m = Inr c"
    by (rule has_merge_fields_accessors)
  show ?thesis
    by (simp add: new_module_Inr [OF acc(1-4)] index_new_module_Inr [OF acc(3)]
        split: option.splits)
qed

lemma index_new_module_log:
  assumes "index_new_module m ns s1 = Inr s'"
  shows "\<exists>c others. logs s' = logs s1 @ [(c, others @ [m])] \<and> c \<noteq> COLL_NAMESPACE"
  using assms
  by (auto simp: index_new_module_def Let_def split: sum.splits option.splits if_splits)

lemma add_modules_occupied:
  "add_modules B s = Inr s1 \<Longrightarrow>
     \<forall>m\<in>set B. \<exists>r x. modulerevision m = Inr r \<and> get_module s1 (modulename m) (Some r) = Inr x"
proof (induction B arbitrary: s)
  case Nil
  then show ?case by simp
next
  case (Cons m B)
  from Cons.prems obtain s' where s': "add_module m s = Inr s'" "add_modules B s' = Inr s1"
    by (auto split: sum.splits)
  from add_module_occupied [OF s'(1)] obtain r x where
    rx: "modulerevision m = Inr r" "get_module s' (modulename m) (Some r) = Inr x"
    by blast
  from add_modules_keeps [OF s'(2) rx(2)] rx(1) Cons.IH [OF s'(2)] show ?case
    by auto
qed

lemma get_module_logs [simp]: "get_module (s\<lparr>logs := l\<rparr>) n r = get_module s n r"
  by (simp add: get_module_def)

lemma checksum_entry_logs: "checksum_entry (s\<lparr>logs := l\<rparr>) = checksum_entry s"
  by (simp add: checksum_entry_def fun_eq_iff split: sum.splits)

lemma recheck_step:
  assumes "modulerevision m = Inr r" and "get_module t (modulename m) (Some r) = Inr x"
    and "checksum m = Inr c" and "checksum x = Inr c'"
  shows "add_module m t = Inr (t\<lparr>logs := logs t @ checksum_entry t m\<rparr>)"
  using existing_revision_Inr [OF assms(1,2,4,3)] assms
  by (simp add: checksum_entry_def)

lemma recheck_all:
  "\<forall>m\<in>set B. (\<exists>c. checksum m = Inr c)
       \<and> (\<exists>r x c. modulerevision m = Inr r \<and> get_module t (modulename m) (Some r) = Inr x
            \<and> checksum x = Inr c) \<Longrightarrow>
   add_modules B t = Inr (t\<lparr>logs := logs t @ concat (map (checksum_entry t) B)\<rparr>)"
proof (induction B arbitrary: t)
  case Nil
  then show ?case by simp
next
  case (Cons m B)
  from Cons.prems obtain r x c c' where h: "modulerevision m = Inr r"
    "get_module t (modulename m) (Some r) = Inr x" "checksum m = Inr c" "checksum x = Inr c'"
    by auto
  let ?t = "t\<lparr>logs := logs t @ checksum_entry t m\<rparr>"
  have step: "add_module m t = Inr ?t"
    using h by (rule recheck_step)
  have "add_modules B ?t = Inr (?t\<lparr>logs := logs ?t @ concat (map (checksum_entry ?t) B)\<rparr>)"
    using Cons.prems by (intro Cons.IH) simp
  then show ?case
    by (simp add: step checksum_entry_logs)
qed

lemma add_module_mods_other:
  assumes "add_module m s = Inr s'" and "modulename m \<noteq> n"
  shows "mods s' n = mods s n"
  using add_module_branch [OF assms(1)]
proof (elim disjE conjE exE)
  assume "new_module m s = Inr s'"
  from new_module_elim [OF this] assms(2) show ?thesis by auto
next
  fix revs r assume "new_revision m s = Inr s'"
  from new_revision_elim [OF this] assms(2) show ?thesis by auto
next
  fix revs r assume "existing_revision m s = Inr s'"
  from existing_revision_elim [OF this] show ?thesis by simp
qed

lemma add_modules_mods_other:
  "add_modules ms s = Inr s' \<Longrightarrow> \<forall>m\<in>set ms. modulename m \<noteq> n \<Longrightarrow> mods s' n = mods s n"
proof (induction ms arbitrary: s)
  case Nil
  then show ?case by simp
next
  case (Cons m ms)
  from Cons.prems(1) obtain s1 where s1: "add_module m s = Inr s1" "add_modules ms s1 = Inr s'"
    by (auto split: sum.splits)
  from Cons.prems(2) have "modulename m \<noteq> n" "\<forall>m\<in>set ms. modulename m \<noteq> n"
    by simp_all
  with add_module_mods_other [OF s1(1)] Cons.IH [OF s1(2)] show ?case by simp
qed

lemma lib_a_reached: "add_modules [ex_a] lib0 = Inr lib_a"
  by (simp add: example_defs merge_defs accessor_defs)


section \<open>A record with an unknown module name\<close>

text \<open>
  C9. A record \<open>m\<close> whose module name is unknown, and which has the fields the merge
  reads, makes the merge append exactly one log entry, whose last record is \<open>m\<close> and
  whose code is \<open>NEW_MODULE\<close>, \<open>COLL_PREFIX\<close> or \<open>COLL_NAMESPACE\<close>; so a collision entry
  excludes the \<open>NEW_MODULE\<close> entry. With \<open>COLL_PREFIX\<close> the record has been registered
  as the owner of its namespace; with \<open>COLL_NAMESPACE\<close> neither index changed.
\<close>

theorem C9_new_module_one_entry:
  assumes "mods s (modulename m) = None" and "has_merge_fields m"
  shows "\<exists>s' c others ns. add_module m s = Inr s' \<and> namespace m = Inr ns
     \<and> logs s' = logs s @ [(c, others @ [m])]
     \<and> (c = NEW_MODULE \<or> c = COLL_PREFIX \<or> c = COLL_NAMESPACE)
     \<and> (c = COLL_PREFIX \<longrightarrow> namespaces s' ns = Some m)
     \<and> (c = COLL_NAMESPACE \<longrightarrow> namespaces s' = namespaces s \<and> prefixes s' = prefixes s)"
proof -
  from assms(2) obtain r ns p k c where acc: "modulerevision m = Inr r" "namespace m = Inr ns"
    "prefix m = Inr p" "kind m = Inr k" "checksum m = Inr c"
    by (rule has_merge_fields_accessors)
  have step: "add_module m s = new_module m s"
    using assms(1) by (simp add: add_module_def)
  show ?thesis
    unfolding step new_module_Inr [OF acc(1-4)] index_new_module_Inr [OF acc(3)]
    using acc(2) by (auto split: option.splits)
qed

theorem C9_new_module_one_entry_witness:
  "mods lib_a (modulename ex_c) = None \<and> has_merge_fields ex_c
   \<and> (\<exists>s' c others ns. add_module ex_c lib_a = Inr s' \<and> namespace ex_c = Inr ns
     \<and> logs s' = logs lib_a @ [(c, others @ [ex_c])]
     \<and> (c = NEW_MODULE \<or> c = COLL_PREFIX \<or> c = COLL_NAMESPACE)
     \<and> (c = COLL_PREFIX \<longrightarrow> namespaces s' ns = Some ex_c)
     \<and> (c = COLL_NAMESPACE \<longrightarrow> namespaces s' = namespaces lib_a \<and> prefixes s' = prefixes lib_a))
   \<and> map_sum id logs (add_module ex_c lib_a)
       = Inr [(NEW_MODULE, [ex_a]), (COLL_PREFIX, [ex_a, ex_c])]"
proof -
  have h1: "mods lib_a (modulename ex_c) = None"
    by (simp add: example_defs accessor_defs)
  have h2: "has_merge_fields ex_c"
    by (simp add: example_defs accessor_defs has_merge_fields_def)
  have run: "map_sum id logs (add_module ex_c lib_a)
       = Inr [(NEW_MODULE, [ex_a]), (COLL_PREFIX, [ex_a, ex_c])]"
    by (simp add: example_defs merge_defs accessor_defs)
  from C9_new_module_one_entry [OF h1 h2] h1 h2 run show ?thesis by blast
qed

text \<open>
  C3, as the code has it. For a record \<open>m\<close> with an unknown module name that passed the
  namespace check (the namespace had no owner, or \<open>m\<close> is a submodule, or its name ends
  in \<open>-ann\<close>) and whose prefix has an owner: \<open>COLL_PREFIX\<close> with \<open>(owner, m)\<close> is appended
  and the prefix keeps its owner exactly when the name of \<open>m\<close> does not end in \<open>-ann\<close>;
  otherwise \<open>m\<close> becomes the prefix owner and \<open>NEW_MODULE\<close> is appended. The kind of \<open>m\<close>
  plays no part in the prefix check.
\<close>

theorem C3_prefix_collision_rule:
  assumes "mods s (modulename m) = None" and "modulerevision m = Inr r"
    and "namespace m = Inr ns" and "prefix m = Inr p" and "kind m = Inr k"
    and "prefixes s p = Some owner"
    and "namespaces s ns = None \<or> namespace_exempt m"
  shows "add_module m s =
     Inr (if prefix_exempt m
          then s\<lparr>mods := (mods s)(modulename m \<mapsto> [(r, m)]),
                 namespaces := (namespaces s)(ns \<mapsto> m),
                 prefixes := (prefixes s)(p \<mapsto> m),
                 logs := logs s @ [(NEW_MODULE, [m])]\<rparr>
          else s\<lparr>mods := (mods s)(modulename m \<mapsto> [(r, m)]),
                 namespaces := (namespaces s)(ns \<mapsto> m),
                 logs := logs s @ [(COLL_PREFIX, [owner, m])]\<rparr>)"
proof -
  have step: "add_module m s = new_module m s"
    using assms(1) by (simp add: add_module_def)
  have "new_module m s = index_new_module m ns (s\<lparr>mods := (mods s)(modulename m \<mapsto> [(r, m)])\<rparr>)"
    using assms(7) by (auto simp: new_module_Inr [OF assms(2,3,4,5)] split: option.splits)
  then show ?thesis
    using assms(6)
    by (simp add: step index_new_module_Inr [OF assms(4)] log_added_def log_error_def)
qed

theorem C3_prefix_collision_rule_witness:
  "mods lib_a (modulename ex_sub) = None \<and> modulerevision ex_sub = Inr ''2020-01-01''
   \<and> namespace ex_sub = Inr ''urn:a'' \<and> prefix ex_sub = Inr ''a''
   \<and> kind ex_sub = Inr ''submodule'' \<and> prefixes lib_a ''a'' = Some ex_a
   \<and> namespace_exempt ex_sub \<and> \<not> prefix_exempt ex_sub
   \<and> add_module ex_sub lib_a =
       Inr (lib_a\<lparr>mods := (mods lib_a)(modulename ex_sub \<mapsto> [(''2020-01-01'', ex_sub)]),
                  namespaces := (namespaces lib_a)(''urn:a'' \<mapsto> ex_sub),
                  logs := logs lib_a @ [(COLL_PREFIX, [ex_a, ex_sub])]\<rparr>)"
proof -
  have h: "mods lib_a (modulename ex_sub) = None" "modulerevision ex_sub = Inr ''2020-01-01''"
    "namespace ex_sub = Inr ''urn:a''" "prefix ex_sub = Inr ''a''"
    "kind ex_sub = Inr ''submodule''" "prefixes lib_a ''a'' = Some ex_a"
    by (simp_all add: example_defs accessor_defs)
  have e: "namespace_exempt ex_sub" "\<not> prefix_exempt ex_sub"
    by (simp_all add: example_defs accessor_defs namespace_exempt_def prefix_exempt_def
        endswith_def)
  from e(1) have h7: "namespaces lib_a ''urn:a'' = None \<or> namespace_exempt ex_sub" ..
  from C3_prefix_collision_rule [OF h h7] e h show ?thesis by simp
qed

text \<open>
  C3 as stated fails: a submodule with an unknown name whose prefix is owned does get
  the \<open>COLL_PREFIX\<close> entry, and the prefix keeps its first owner.
\<close>

theorem C3_submodule_prefix_counterexample:
  "kind ex_sub = Inr ''submodule'' \<and> mods lib_a (modulename ex_sub) = None
   \<and> prefixes_get ''a'' lib_a = Some ex_a
   \<and> map_sum id logs (add_module ex_sub lib_a)
       = Inr (logs lib_a @ [(COLL_PREFIX, [ex_a, ex_sub])])
   \<and> map_sum id (prefixes_get ''a'') (add_module ex_sub lib_a) = Inr (Some ex_a)"
  by (simp add: example_defs merge_defs accessor_defs)


section \<open>A new revision of a known module\<close>

text \<open>
  C5. For a record \<open>m\<close> whose name is known with the revision dictionary \<open>revs\<close> and whose
  effective revision \<open>r\<close> is not a key of \<open>revs\<close>, with \<open>lib_mod\<close> the record under the
  first key of \<open>revs\<close>: \<open>m\<close> is stored under \<open>r\<close>, after the existing revisions. If the
  namespaces differ and neither is \<open>undefined\<close>, the only entry appended is
  \<open>DIFF_NAMESPACE\<close> with \<open>(lib_mod, m)\<close>, whatever the prefixes are (they are not read).
  Otherwise the only entry appended is \<open>DIFF_PREFIX\<close> with \<open>(lib_mod, m)\<close> when the
  prefixes differ, and none when they agree. The loop then goes on with the next record.
\<close>

theorem C5_new_revision:
  assumes "mods s (modulename m) = Some revs" and "revs = (r0, lib_mod) # rest"
    and "modulerevision m = Inr r" and "r \<notin> set (dict_keys revs)"
    and "namespace lib_mod = Inr lns" and "namespace m = Inr ns"
  shows "(lns \<noteq> ns \<and> ns \<noteq> ''undefined'' \<and> lns \<noteq> ''undefined'' \<longrightarrow>
            add_module m s =
              Inr (s\<lparr>mods := (mods s)(modulename m \<mapsto> revs @ [(r, m)]),
                     logs := logs s @ [(DIFF_NAMESPACE, [lib_mod, m])]\<rparr>))
       \<and> (\<not> (lns \<noteq> ns \<and> ns \<noteq> ''undefined'' \<and> lns \<noteq> ''undefined'') \<longrightarrow>
            (\<forall>lp p. prefix lib_mod = Inr lp \<and> prefix m = Inr p \<longrightarrow>
               add_module m s =
                 Inr (s\<lparr>mods := (mods s)(modulename m \<mapsto> revs @ [(r, m)]),
                        logs := logs s @ (if lp \<noteq> p then [(DIFF_PREFIX, [lib_mod, m])] else [])\<rparr>)))
       \<and> (\<forall>s' ms. add_module m s = Inr s' \<longrightarrow> add_modules (m # ms) s = add_modules ms s')"
proof -
  have step: "add_module m s = new_revision m s"
    using assms(1,3,4) by (simp add: add_module_def)
  have ins: "dict_set ((r0, lib_mod) # rest) r m = revs @ [(r, m)]"
    using assms(2,4) dict_set_new [of r revs m] by simp
  note nr = new_revision_Inr [OF assms(1) [unfolded assms(2)] assms(3,5,6), unfolded ins]
  have a: "lns \<noteq> ns \<and> ns \<noteq> ''undefined'' \<and> lns \<noteq> ''undefined'' \<longrightarrow>
            add_module m s =
              Inr (s\<lparr>mods := (mods s)(modulename m \<mapsto> revs @ [(r, m)]),
                     logs := logs s @ [(DIFF_NAMESPACE, [lib_mod, m])]\<rparr>)"
    by (simp add: step nr log_error_def)
  have b: "\<not> (lns \<noteq> ns \<and> ns \<noteq> ''undefined'' \<and> lns \<noteq> ''undefined'') \<longrightarrow>
            (\<forall>lp p. prefix lib_mod = Inr lp \<and> prefix m = Inr p \<longrightarrow>
               add_module m s =
                 Inr (s\<lparr>mods := (mods s)(modulename m \<mapsto> revs @ [(r, m)]),
                        logs := logs s @ (if lp \<noteq> p then [(DIFF_PREFIX, [lib_mod, m])] else [])\<rparr>))"
    by (auto simp: step nr log_error_def)
  have c: "\<forall>s' ms. add_module m s = Inr s' \<longrightarrow> add_modules (m # ms) s = add_modules ms s'"
    by simp
  from a b c show ?thesis by blast
qed

theorem C5_new_revision_witness:
  "mods lib_a (modulename ex_a_feb) = Some [(''2020-01-01'', ex_a)]
   \<and> modulerevision ex_a_feb = Inr ''2020-02-01''
   \<and> ''2020-02-01'' \<notin> set (dict_keys [(''2020-01-01'', ex_a)])
   \<and> namespace ex_a = Inr ''urn:a'' \<and> namespace ex_a_feb = Inr ''urn:a2''
   \<and> add_module ex_a_feb lib_a =
       Inr (lib_a\<lparr>mods := (mods lib_a)(modulename ex_a_feb \<mapsto>
                      [(''2020-01-01'', ex_a)] @ [(''2020-02-01'', ex_a_feb)]),
                  logs := logs lib_a @ [(DIFF_NAMESPACE, [ex_a, ex_a_feb])]\<rparr>)"
proof -
  have h: "mods lib_a (modulename ex_a_feb) = Some [(''2020-01-01'', ex_a)]"
    "[(''2020-01-01'', ex_a)] = (''2020-01-01'', ex_a) # []"
    "modulerevision ex_a_feb = Inr ''2020-02-01''"
    "''2020-02-01'' \<notin> set (dict_keys [(''2020-01-01'', ex_a)])"
    "namespace ex_a = Inr ''urn:a''" "namespace ex_a_feb = Inr ''urn:a2''"
    by (simp_all add: example_defs accessor_defs)
  from C5_new_revision [OF h] h show ?thesis by simp
qed


section \<open>A record without a module name\<close>

text \<open>
  C10. When the metadata of a record has no \<open>modulename\<close> field, \<open>modulename\<close> returns
  \<open>"foo"\<close> (it has no exceptional result at all). The merge then files the record under
  the name \<open>foo\<close>: if that name is unknown and the record has the fields the merge reads,
  the merge succeeds and \<open>foo\<close> maps to the one revision holding the record; and after
  every successful merge step of the record its effective revision is a key of \<open>foo\<close>.
\<close>

theorem C10_modulename_default:
  assumes "dict_get (modinfo m) ''modulename'' = None"
  shows "modulename m = ''foo''
     \<and> (has_merge_fields m \<and> mods s ''foo'' = None \<longrightarrow>
          (\<exists>s' r. add_module m s = Inr s' \<and> modulerevision m = Inr r
             \<and> mods s' ''foo'' = Some [(r, m)]))
     \<and> (\<forall>s'. add_module m s = Inr s' \<longrightarrow>
          (\<exists>r x. modulerevision m = Inr r \<and> get_module s' ''foo'' (Some r) = Inr x))"
proof -
  have name: "modulename m = ''foo''"
    using assms by (simp add: modulename_def dict_item_def dict_get_def)
  have new: "\<exists>s' r. add_module m s = Inr s' \<and> modulerevision m = Inr r
             \<and> mods s' ''foo'' = Some [(r, m)]"
    if h: "has_merge_fields m" "mods s ''foo'' = None"
  proof -
    from h(1) obtain r ns p k c where acc: "modulerevision m = Inr r" "namespace m = Inr ns"
      "prefix m = Inr p" "kind m = Inr k" "checksum m = Inr c"
      by (rule has_merge_fields_accessors)
    have step: "add_module m s = new_module m s"
      using h(2) name by (simp add: add_module_def)
    have "\<exists>s'. new_module m s = Inr s'"
      by (simp add: new_module_Inr [OF acc(1-4)] index_new_module_Inr [OF acc(3)]
          split: option.splits)
    then obtain s' where s': "new_module m s = Inr s'" ..
    from new_module_elim [OF s'] acc(1) name step s' show ?thesis by auto
  qed
  from name new add_module_occupied [of m s] show ?thesis
    by auto
qed

theorem C10_modulename_default_witness:
  "dict_get (modinfo ex_noname) ''modulename'' = None \<and> modulename ex_noname = ''foo''
   \<and> has_merge_fields ex_noname \<and> mods lib_a ''foo'' = None
   \<and> (\<exists>s' r. add_module ex_noname lib_a = Inr s' \<and> modulerevision ex_noname = Inr r
          \<and> mods s' ''foo'' = Some [(r, ex_noname)])
   \<and> map_sum id logs (add_module ex_noname lib_a)
       = Inr [(NEW_MODULE, [ex_a]), (NEW_MODULE, [ex_noname])]"
proof -
  have h: "dict_get (modinfo ex_noname) ''modulename'' = None"
    by (simp add: example_defs accessor_defs)
  have h2: "has_merge_fields ex_noname" "mods lib_a ''foo'' = None"
    by (simp_all add: example_defs accessor_defs has_merge_fields_def)
  have run: "map_sum id logs (add_module ex_noname lib_a)
       = Inr [(NEW_MODULE, [ex_a]), (NEW_MODULE, [ex_noname])]"
    by (simp add: example_defs merge_defs accessor_defs)
  from C10_modulename_default [OF h, of lib_a] h h2 run show ?thesis by blast
qed

section \<open>Two records with one namespace\<close>

text \<open>
  C4, as the code has it. Let \<open>a\<close> and \<open>b\<close> have the namespace \<open>ns\<close>, which has no owner,
  and different names that are unknown, let both have the fields the merge reads, and
  let the batch be \<open>a\<close>, then any records \<open>mid\<close> with names other than that of \<open>b\<close>, then
  \<open>b\<close>. After the merge of \<open>a\<close> the owner of \<open>ns\<close> is \<open>a\<close>, whatever its kind and name. When
  \<open>b\<close> is reached the owner \<open>ow\<close> is still \<open>a\<close>, or a record of \<open>mid\<close> that is exempt from
  the namespace check. If \<open>b\<close> is not exempt (it is no submodule and its name does not
  end in \<open>-ann\<close>) the entry for \<open>b\<close> is \<open>COLL_NAMESPACE\<close> with \<open>(ow, b)\<close> and \<open>ow\<close> stays the
  owner; if \<open>b\<close> is exempt, \<open>b\<close> becomes the owner and its entry is not \<open>COLL_NAMESPACE\<close>.
  Only the exemption of the second record counts.
\<close>

theorem C4_first_seen_namespace:
  assumes "mods s (modulename a) = None" and "mods s (modulename b) = None"
    and "modulename a \<noteq> modulename b" and "\<forall>m\<in>set mid. modulename m \<noteq> modulename b"
    and "namespace a = Inr ns" and "namespace b = Inr ns" and "namespaces s ns = None"
    and "has_merge_fields a" and "has_merge_fields b"
    and "add_modules (a # mid) s = Inr s1"
  shows "\<exists>s0 s2 ow. add_module a s = Inr s0 \<and> namespaces s0 ns = Some a
     \<and> namespaces s1 ns = Some ow \<and> (ow = a \<or> ow \<in> set mid \<and> namespace_exempt ow)
     \<and> add_modules (a # mid @ [b]) s = Inr s2
     \<and> (if namespace_exempt b
        then namespaces s2 ns = Some b
             \<and> (\<exists>c others. logs s2 = logs s1 @ [(c, others @ [b])] \<and> c \<noteq> COLL_NAMESPACE)
        else namespaces s2 ns = Some ow \<and> logs s2 = logs s1 @ [(COLL_NAMESPACE, [ow, b])])"
proof -
  from assms(10) obtain s0 where s0: "add_module a s = Inr s0" "add_modules mid s0 = Inr s1"
    by (auto split: sum.splits)
  have step_a: "add_module a s = new_module a s"
    using assms(1) by (simp add: add_module_def)
  from assms(8) obtain ra pa ka where acc_a: "modulerevision a = Inr ra" "prefix a = Inr pa"
    "kind a = Inr ka"
    by (auto elim: has_merge_fields_accessors)
  have "new_module a s = index_new_module a ns (s\<lparr>mods := (mods s)(modulename a \<mapsto> [(ra, a)])\<rparr>)"
    using assms(7) by (simp add: new_module_Inr [OF acc_a(1) assms(5) acc_a(2,3)])
  with s0(1) step_a
  have idx: "index_new_module a ns (s\<lparr>mods := (mods s)(modulename a \<mapsto> [(ra, a)])\<rparr>) = Inr s0"
    by simp
  from index_new_module_elim [OF idx] have owner0: "namespaces s0 ns = Some a"
    by simp
  from add_modules_ns_owner [OF s0(2) owner0] obtain ow where
    ow: "namespaces s1 ns = Some ow" "ow = a \<or> ow \<in> set mid \<and> namespace_exempt ow"
    by auto
  from assms(3,4) have "\<forall>m\<in>set (a # mid). modulename m \<noteq> modulename b"
    by simp
  from add_modules_mods_other [OF assms(10) this] assms(2)
  have unknown: "mods s1 (modulename b) = None"
    by simp
  then have step_b: "add_module b s1 = new_module b s1"
    by (simp add: add_module_def)
  from new_module_total [OF assms(9)] obtain s2 where s2: "new_module b s1 = Inr s2" ..
  from assms(9) obtain rb pb kb where acc_b: "modulerevision b = Inr rb" "prefix b = Inr pb"
    "kind b = Inr kb"
    by (auto elim: has_merge_fields_accessors)
  note nb = new_module_Inr [OF acc_b(1) assms(6) acc_b(2,3), of s1]
  have "add_modules ((a # mid) @ [b]) s = Inr s2"
    by (simp only: add_modules_append [of "a # mid" "[b]" s] assms(10))
      (simp add: step_b s2)
  then have run: "add_modules (a # mid @ [b]) s = Inr s2"
    by simp
  have concl: "if namespace_exempt b
        then namespaces s2 ns = Some b
             \<and> (\<exists>c others. logs s2 = logs s1 @ [(c, others @ [b])] \<and> c \<noteq> COLL_NAMESPACE)
        else namespaces s2 ns = Some ow \<and> logs s2 = logs s1 @ [(COLL_NAMESPACE, [ow, b])]"
  proof (cases "namespace_exempt b")
    case True
    with nb ow(1) s2
    have i: "index_new_module b ns (s1\<lparr>mods := (mods s1)(modulename b \<mapsto> [(rb, b)])\<rparr>) = Inr s2"
      by simp
    from index_new_module_elim [OF i] index_new_module_log [OF i] True show ?thesis
      by simp
  next
    case False
    with nb ow(1) s2
    have "s2 = log_error COLL_NAMESPACE [ow, b] (s1\<lparr>mods := (mods s1)(modulename b \<mapsto> [(rb, b)])\<rparr>)"
      by simp
    with False ow(1) show ?thesis by simp
  qed
  from s0(1) owner0 ow run concl show ?thesis by blast
qed

theorem C4_first_seen_namespace_witness:
  "mods lib0 (modulename ex_a) = None \<and> mods lib0 (modulename ex_b) = None
   \<and> modulename ex_a \<noteq> modulename ex_b \<and> modulename ex_c \<noteq> modulename ex_b
   \<and> namespace ex_a = Inr ''urn:a'' \<and> namespace ex_b = Inr ''urn:a''
   \<and> namespaces lib0 ''urn:a'' = None \<and> has_merge_fields ex_a \<and> has_merge_fields ex_b
   \<and> add_modules [ex_a, ex_c] lib0 = Inr lib_a_c \<and> \<not> namespace_exempt ex_b
   \<and> (\<exists>s2. add_modules [ex_a, ex_c, ex_b] lib0 = Inr s2
         \<and> namespaces s2 ''urn:a'' = Some ex_a
         \<and> logs s2 = logs lib_a_c @ [(COLL_NAMESPACE, [ex_a, ex_b])])"
proof -
  have h: "mods lib0 (modulename ex_a) = None" "mods lib0 (modulename ex_b) = None"
    "modulename ex_a \<noteq> modulename ex_b" "\<forall>m\<in>set [ex_c]. modulename m \<noteq> modulename ex_b"
    "namespace ex_a = Inr ''urn:a''" "namespace ex_b = Inr ''urn:a''"
    "namespaces lib0 ''urn:a'' = None" "has_merge_fields ex_a" "has_merge_fields ex_b"
    by (simp_all add: example_defs accessor_defs has_merge_fields_def)
  have run: "add_modules [ex_a, ex_c] lib0 = Inr lib_a_c"
    by (simp add: example_defs state_defs merge_defs accessor_defs)
  have ne: "\<not> namespace_exempt ex_b" "\<not> namespace_exempt ex_c"
    by (simp_all add: example_defs accessor_defs namespace_exempt_def endswith_def)
  have own: "namespaces lib_a_c ''urn:a'' = Some ex_a"
    by (simp add: example_defs state_defs)
  from C4_first_seen_namespace [OF h run] ne own h run show ?thesis
    by auto
qed

text \<open>
  C4 as stated fails when the first record is the exempt one: a submodule merged first
  owns the namespace, and the module merged second gets \<open>COLL_NAMESPACE\<close>.
\<close>

theorem C4_exempt_first_counterexample:
  "kind ex_sub = Inr ''submodule'' \<and> namespace ex_sub = Inr ''urn:a''
   \<and> namespace ex_b = Inr ''urn:a'' \<and> modulename ex_sub \<noteq> modulename ex_b
   \<and> namespaces_get ''urn:a'' lib0 = None
   \<and> mods lib0 (modulename ex_sub) = None \<and> mods lib0 (modulename ex_b) = None
   \<and> map_sum id logs (add_modules [ex_sub, ex_b] lib0)
       = Inr [(NEW_MODULE, [ex_sub]), (COLL_NAMESPACE, [ex_sub, ex_b])]"
  by (simp add: example_defs merge_defs accessor_defs)


section \<open>The owners of namespaces and prefixes\<close>





section \<open>The key of a stored record\<close>

text \<open>
  C1. In every library reached from the empty one by a sequence of batches: no module
  has two revisions under one key; a record \<open>m\<close> whose name and effective revision are
  stored changes nothing but the log, to which it appends the one entry
  \<open>DIFF_CHECKSUM\<close> with \<open>(stored, m)\<close> when the checksums differ and nothing when they
  agree; and whatever is merged afterwards, the record stored under a name and a
  revision stays the same record.
\<close>

theorem C1_unique_key_never_replaced:
  assumes "merges bs (Library_init dir dbg) = Inr s"
  shows "(\<forall>n revs. mods s n = Some revs \<longrightarrow> distinct (dict_keys revs))
     \<and> (\<forall>m r stored c1 c2.
          modulerevision m = Inr r \<and> get_module s (modulename m) (Some r) = Inr stored
          \<and> checksum stored = Inr c1 \<and> checksum m = Inr c2 \<longrightarrow>
          add_module m s =
            Inr (s\<lparr>logs := logs s @ (if c1 \<noteq> c2 then [(DIFF_CHECKSUM, [stored, m])] else [])\<rparr>))
     \<and> (\<forall>ms s' n r x. add_modules ms s = Inr s' \<and> get_module s n (Some r) = Inr x \<longrightarrow>
          get_module s' n (Some r) = Inr x)"
proof -
  have "unique_keys (Library_init dir dbg)"
    by (simp add: unique_keys_def Library_init_def)
  with assms have "unique_keys s"
    unfolding merges_concat by (rule add_modules_unique_keys)
  then have a: "\<forall>n revs. mods s n = Some revs \<longrightarrow> distinct (dict_keys revs)"
    by (simp add: unique_keys_def)
  from a existing_revision_Inr add_modules_keeps show ?thesis
    by blast
qed

theorem C1_unique_key_never_replaced_witness:
  "merges [[ex_a]] (Library_init (Some ''lib'') False) = Inr lib_a
   \<and> modulerevision ex_a_changed = Inr ''2020-01-01''
   \<and> get_module lib_a (modulename ex_a_changed) (Some ''2020-01-01'') = Inr ex_a
   \<and> checksum ex_a = Inr ''c1'' \<and> checksum ex_a_changed = Inr ''c2''
   \<and> add_module ex_a_changed lib_a = Inr lib_a_changed
   \<and> get_module lib_a_changed ''a'' (Some ''2020-01-01'') = Inr ex_a"
proof -
  have h: "merges [[ex_a]] (Library_init (Some ''lib'') False) = Inr lib_a"
    using lib_a_reached by (simp add: lib0_def)
  have m: "modulerevision ex_a_changed = Inr ''2020-01-01''"
    "get_module lib_a (modulename ex_a_changed) (Some ''2020-01-01'') = Inr ex_a"
    "checksum ex_a = Inr ''c1''" "checksum ex_a_changed = Inr ''c2''"
    by (simp_all add: example_defs accessor_defs get_module_def)
  from C1_unique_key_never_replaced [OF h] m have "add_module ex_a_changed lib_a =
      Inr (lib_a\<lparr>logs := logs lib_a @
         (if ''c1'' \<noteq> ''c2'' then [(DIFF_CHECKSUM, [ex_a, ex_a_changed])] else [])\<rparr>)"
    by blast
  then have step: "add_module ex_a_changed lib_a = Inr lib_a_changed"
    by (simp add: lib_a_changed_def)
  have "get_module lib_a_changed ''a'' (Some ''2020-01-01'') = Inr ex_a"
    by (simp add: example_defs state_defs accessor_defs get_module_def)
  with h m step show ?thesis by simp
qed


section \<open>Merging a batch a second time\<close>

text \<open>
  C6, as the code has it. After a batch \<open>B\<close> has been merged, every record of \<open>B\<close> finds
  its name and revision stored. Merging \<open>B\<close> again (the records and the stored records
  having a checksum) changes nothing but the log and appends, for each record of \<open>B\<close>
  in order, the entry \<open>DIFF_CHECKSUM\<close> when its checksum differs from that of the
  record stored under its name and revision, and nothing otherwise. So the second merge
  appends no entry exactly when no record of \<open>B\<close> differs in checksum from the stored one.
\<close>

theorem C6_second_merge:
  assumes "add_modules B s = Inr s1"
    and "\<forall>m\<in>set B. (\<exists>c. checksum m = Inr c)
           \<and> (\<forall>r x. modulerevision m = Inr r \<and> get_module s1 (modulename m) (Some r) = Inr x
                \<longrightarrow> (\<exists>c. checksum x = Inr c))"
  shows "add_modules B s1 = Inr (s1\<lparr>logs := logs s1 @ concat (map (checksum_entry s1) B)\<rparr>)
     \<and> ((\<forall>m\<in>set B. checksum_entry s1 m = []) \<longrightarrow> add_modules B s1 = Inr s1)"
proof -
  have "\<forall>m\<in>set B. (\<exists>c. checksum m = Inr c)
       \<and> (\<exists>r x c. modulerevision m = Inr r \<and> get_module s1 (modulename m) (Some r) = Inr x
            \<and> checksum x = Inr c)"
    using add_modules_occupied [OF assms(1)] assms(2) by blast
  then have a: "add_modules B s1 = Inr (s1\<lparr>logs := logs s1 @ concat (map (checksum_entry s1) B)\<rparr>)"
    by (rule recheck_all)
  have "concat (map (checksum_entry s1) B) = []" if "\<forall>m\<in>set B. checksum_entry s1 m = []"
    using that by simp
  with a show ?thesis by simp
qed

theorem C6_second_merge_witness:
  "add_modules [ex_a] lib0 = Inr lib_a \<and> checksum ex_a = Inr ''c1''
   \<and> checksum_entry lib_a ex_a = [] \<and> add_modules [ex_a] lib_a = Inr lib_a"
proof -
  have h: "add_modules [ex_a] lib0 = Inr lib_a"
    by (rule lib_a_reached)
  have c: "checksum ex_a = Inr ''c1''"
    by (simp add: example_defs accessor_defs)
  have g: "get_module lib_a (modulename ex_a) (Some r) = Inr x \<Longrightarrow> x = ex_a" for r x
    by (auto simp: example_defs accessor_defs get_module_def split: if_splits)
  have h2: "\<forall>m\<in>set [ex_a]. (\<exists>c. checksum m = Inr c)
           \<and> (\<forall>r x. modulerevision m = Inr r \<and> get_module lib_a (modulename m) (Some r) = Inr x
                \<longrightarrow> (\<exists>c. checksum x = Inr c))"
    using c g by auto
  have e: "checksum_entry lib_a ex_a = []"
    by (simp add: checksum_entry_def example_defs accessor_defs get_module_def)
  from C6_second_merge [OF h h2] e h c show ?thesis
    by simp
qed

text \<open>
  C6 as stated fails: the batch of the one record \<open>ex_a_changed\<close>, merged into the library
  that holds \<open>ex_a\<close>, gets \<open>DIFF_CHECKSUM\<close> the first time and again the second time.
\<close>

theorem C6_conflict_repeated_counterexample:
  "add_modules [ex_a] lib0 = Inr lib_a
   \<and> add_modules [ex_a_changed] lib_a = Inr lib_a_changed
   \<and> map_sum id logs (add_modules [ex_a_changed] lib_a_changed)
       = Inr (logs lib_a_changed @ [(DIFF_CHECKSUM, [ex_a, ex_a_changed])])"
  by (simp add: example_defs state_defs merge_defs accessor_defs)


section \<open>Writing and reading a release file\<close>












end
